theory Spec2Isabelle
  imports Complex_Main "HOL-Library.Mapping" "HOL-Library.AList_Mapping"
begin

section \<open>The graph of kuznetsov_sirbu/graph.cpp\<close>

text \<open>
  \<^verbatim>\<open>VertexId\<close>, \<^verbatim>\<open>EdgeId\<close> and \<^verbatim>\<open>Depth\<close> are C++ \<^verbatim>\<open>int\<close>. They are modelled as
  unbounded \<open>int\<close>: the counters start at 0 and grow by one per stored vertex or edge,
  and a depth is at most the number of vertices, so none of them reaches \<open>2^31\<close> before
  the containers exhaust memory.
\<close>

type_synonym VertexId = int
type_synonym EdgeId = int
type_synonym Depth = int

definition kBaseDepth :: Depth where
  "kBaseDepth = 1"

definition kDifferenceRedEdge :: Depth where
  "kDifferenceRedEdge = 2"

definition kDifferenceYellowEdge :: Depth where
  "kDifferenceYellowEdge = 1"

text \<open>\<^verbatim>\<open>struct Vertex\<close> holds its id only.\<close>

datatype Vertex = Vertex (vertex_id: VertexId)

datatype Color = Grey | Green | Yellow | Red

text \<open>\<^verbatim>\<open>struct Edge\<close>: the getters \<^verbatim>\<open>id()\<close>, \<^verbatim>\<open>from_vertex_id()\<close>, \<^verbatim>\<open>to_vertex_id()\<close>, \<^verbatim>\<open>color()\<close>.\<close>

record Edge =
  edge_id :: EdgeId
  from_vertex_id :: VertexId
  to_vertex_id :: VertexId
  color :: Color

text \<open>
  The private members of \<^verbatim>\<open>class Graph\<close> (without the trailing underscore). The three
  \<^verbatim>\<open>std::unordered_map\<close>s are finite maps.
\<close>

record Graph =
  vertex_id_counter :: VertexId
  edge_id_counter :: EdgeId
  vertices :: "Vertex list"
  edges :: "Edge list"
  adjacency_list :: "(VertexId, EdgeId list) mapping"
  vertex_depths :: "(VertexId, Depth) mapping"
  depth_to_vertices :: "(Depth, VertexId list) mapping"

text \<open>\<^verbatim>\<open>Graph()\<close>: counters 0, containers empty.\<close>

definition new_Graph :: Graph where
  "new_Graph = \<lparr>vertex_id_counter = 0, edge_id_counter = 0, vertices = [], edges = [],
     adjacency_list = Mapping.empty, vertex_depths = Mapping.empty,
     depth_to_vertices = Mapping.empty\<rparr>"

text \<open>
  Every way the source can stop: a failed \<^verbatim>\<open>assert\<close>, \<^verbatim>\<open>std::out_of_range\<close> from
  \<^verbatim>\<open>.at()\<close>, the \<^verbatim>\<open>std::runtime_error\<close> of \<^verbatim>\<open>get_edge_color\<close>, and behaviour the
  language leaves undefined (an unchecked \<^verbatim>\<open>edges_[i]\<close> out of range, a distribution
  built from a parameter outside its domain).
\<close>

datatype error = AssertionFailed | OutOfRange | RuntimeError | UndefinedBehaviour

text \<open>\<^verbatim>\<open>m.at(k)\<close>: throws when the key is missing.\<close>

definition map_at :: "('k, 'v) mapping \<Rightarrow> 'k \<Rightarrow> error + 'v" where
  "map_at m k = (case Mapping.lookup m k of None \<Rightarrow> Inl OutOfRange | Some v \<Rightarrow> Inr v)"

text \<open>
  \<^verbatim>\<open>m[k].emplace_back(x)\<close>: \<^verbatim>\<open>operator[]\<close> inserts an empty vector for a missing key,
  then the element is appended.
\<close>

definition emplace_back_at :: "('k, 'a list) mapping \<Rightarrow> 'k \<Rightarrow> 'a \<Rightarrow> ('k, 'a list) mapping" where
  "emplace_back_at m k x = Mapping.update k (Mapping.lookup_default [] m k @ [x]) m"

definition get_new_vertex_id :: "Graph \<Rightarrow> VertexId \<times> Graph" where
  "get_new_vertex_id g = (vertex_id_counter g, g\<lparr>vertex_id_counter := vertex_id_counter g + 1\<rparr>)"

definition get_new_edge_id :: "Graph \<Rightarrow> EdgeId \<times> Graph" where
  "get_new_edge_id g = (edge_id_counter g, g\<lparr>edge_id_counter := edge_id_counter g + 1\<rparr>)"

definition add_vertex :: "Graph \<Rightarrow> VertexId \<times> Graph" where
  "add_vertex g =
     (case get_new_vertex_id g of (new_vertex_id, g1) \<Rightarrow>
        (new_vertex_id,
         g1\<lparr>vertices := vertices g1 @ [Vertex new_vertex_id],
            adjacency_list := Mapping.update new_vertex_id [] (adjacency_list g1),
            vertex_depths := Mapping.update new_vertex_id kBaseDepth (vertex_depths g1),
            depth_to_vertices := emplace_back_at (depth_to_vertices g1) kBaseDepth new_vertex_id\<rparr>))"

definition has_vertex :: "Graph \<Rightarrow> VertexId \<Rightarrow> bool" where
  "has_vertex g v = (Mapping.lookup (adjacency_list g) v \<noteq> None)"

definition get_vertices :: "Graph \<Rightarrow> Vertex list" where
  "get_vertices g = vertices g"

definition get_edges :: "Graph \<Rightarrow> Edge list" where
  "get_edges g = edges g"

definition connected_edges_ids :: "Graph \<Rightarrow> VertexId \<Rightarrow> error + EdgeId list" where
  "connected_edges_ids g v =
     (if \<not> has_vertex g v then Inr [] else map_at (adjacency_list g) v)"

text \<open>
  \<^verbatim>\<open>set_vertex_depth\<close>: append to the bucket of the new depth, erase the first
  occurrence of the vertex from the base bucket when \<^verbatim>\<open>std::find\<close> finds one (both
  \<^verbatim>\<open>operator[]\<close> accesses create their bucket), then store the depth.
\<close>

definition set_vertex_depth :: "Graph \<Rightarrow> VertexId \<Rightarrow> Depth \<Rightarrow> Graph" where
  "set_vertex_depth g v d =
     (let b1 = emplace_back_at (depth_to_vertices g) d v;
          base = Mapping.lookup_default [] b1 kBaseDepth;
          b2 = Mapping.update kBaseDepth (if v \<in> set base then remove1 v base else base) b1
      in g\<lparr>depth_to_vertices := b2, vertex_depths := Mapping.update v d (vertex_depths g)\<rparr>)"

text \<open>
  The loop of \<^verbatim>\<open>is_connected\<close> over the edge ids of \<^verbatim>\<open>from\<close>'s adjacency list.
  \<^verbatim>\<open>edges_[edge_id]\<close> is unchecked; an index outside the vector is undefined behaviour.
\<close>

fun is_connected_loop :: "Edge list \<Rightarrow> EdgeId list \<Rightarrow> VertexId \<Rightarrow> error + bool" where
  "is_connected_loop es [] to_id = Inr False"
| "is_connected_loop es (i # edges_ids) to_id =
     (if 0 \<le> i \<and> nat i < length es then
        (if from_vertex_id (es ! nat i) = to_id \<or> to_vertex_id (es ! nat i) = to_id
         then Inr True
         else is_connected_loop es edges_ids to_id)
      else Inl UndefinedBehaviour)"

definition is_connected :: "Graph \<Rightarrow> VertexId \<Rightarrow> VertexId \<Rightarrow> error + bool" where
  "is_connected g from_id to_id =
     (case map_at (adjacency_list g) from_id of
        Inl e \<Rightarrow> Inl e
      | Inr edges_ids \<Rightarrow> is_connected_loop (edges g) edges_ids to_id)"

text \<open>
  \<^verbatim>\<open>get_edge_color\<close>, in the source's order. The \<^verbatim>\<open>&&\<close> of the Yellow test
  evaluates \<^verbatim>\<open>is_connected\<close> only when the depth difference is 1.
\<close>

definition get_edge_color :: "Graph \<Rightarrow> VertexId \<Rightarrow> VertexId \<Rightarrow> error + Color" where
  "get_edge_color g from_id to_id =
     (case map_at (vertex_depths g) from_id of
        Inl e \<Rightarrow> Inl e
      | Inr from_vertex_depth \<Rightarrow>
     (case map_at (vertex_depths g) to_id of
        Inl e \<Rightarrow> Inl e
      | Inr to_vertex_depth \<Rightarrow>
     if from_id = to_id then Inr Green
     else
     (case map_at (adjacency_list g) to_id of
        Inl e \<Rightarrow> Inl e
      | Inr to_edges \<Rightarrow>
     if length to_edges = 0 then Inr Grey
     else
     (case (if to_vertex_depth - from_vertex_depth = kDifferenceYellowEdge
            then (case is_connected g from_id to_id of
                    Inl e \<Rightarrow> Inl e
                  | Inr c \<Rightarrow> Inr (\<not> c))
            else Inr False) of
        Inl e \<Rightarrow> Inl e
      | Inr yellow \<Rightarrow>
     if yellow then Inr Yellow
     else if to_vertex_depth - from_vertex_depth = kDifferenceRedEdge then Inr Red
     else Inl RuntimeError))))"

definition vertex_depth :: "Graph \<Rightarrow> VertexId \<Rightarrow> error + Depth" where
  "vertex_depth g v = map_at (vertex_depths g) v"

definition get_vertices_with_depth :: "Graph \<Rightarrow> Depth \<Rightarrow> error + VertexId list" where
  "get_vertices_with_depth g d =
     (if Mapping.lookup (depth_to_vertices g) d \<noteq> None
      then map_at (depth_to_vertices g) d
      else Inr [])"

definition depth :: "Graph \<Rightarrow> Depth" where
  "depth g = int (Mapping.size (depth_to_vertices g))"

text \<open>
  \<^verbatim>\<open>add_edge\<close>. The two \<^verbatim>\<open>assert\<close>s abort the call; \<^verbatim>\<open>get_edge_color\<close> may throw
  before anything is written. The test before the first adjacency update compares
  \<^verbatim>\<open>from_vertex_id\<close> with \<^verbatim>\<open>edge_id\<close>, as the source does.
\<close>

definition add_edge :: "Graph \<Rightarrow> VertexId \<Rightarrow> VertexId \<Rightarrow> error + (EdgeId \<times> Graph)" where
  "add_edge g from_id to_id =
     (if \<not> has_vertex g from_id then Inl AssertionFailed
      else if \<not> has_vertex g to_id then Inl AssertionFailed
      else
     (case get_edge_color g from_id to_id of
        Inl e \<Rightarrow> Inl e
      | Inr c \<Rightarrow>
     (case (if c = Grey
            then (case vertex_depth g from_id of
                    Inl e \<Rightarrow> Inl e
                  | Inr d \<Rightarrow> Inr (set_vertex_depth g to_id (d + 1)))
            else Inr g) of
        Inl e \<Rightarrow> Inl e
      | Inr g1 \<Rightarrow>
     (case get_new_edge_id g1 of (new_edge_id, g2) \<Rightarrow>
        let g3 = g2\<lparr>edges := edges g2 @
                   [\<lparr>edge_id = new_edge_id, from_vertex_id = from_id,
                     to_vertex_id = to_id, color = c\<rparr>]\<rparr>;
            g4 = (if from_id \<noteq> new_edge_id
                  then g3\<lparr>adjacency_list := emplace_back_at (adjacency_list g3) from_id new_edge_id\<rparr>
                  else g3);
            g5 = g4\<lparr>adjacency_list := emplace_back_at (adjacency_list g4) to_id new_edge_id\<rparr>
        in Inr (new_edge_id, g5)))))"


section \<open>The generator\<close>

record Params =
  params_depth :: Depth
  new_vertices_count :: int

text \<open>
  A \<^verbatim>\<open>double\<close> as far as the generator needs it: a finite value, held exactly (rounding
  is not modelled), or one of the three IEEE 754 results of a division by zero.
\<close>

datatype double = Finite rat | PosInf | NegInf | NaN

text \<open>\<^verbatim>\<open>static_cast<double>(a) / b\<close> for \<^verbatim>\<open>int\<close> operands: \<^verbatim>\<open>b\<close> is converted, the division is IEEE.\<close>

definition double_div :: "int \<Rightarrow> int \<Rightarrow> double" where
  "double_div a b =
     (if b = 0 then (if a = 0 then NaN else if 0 < a then PosInf else NegInf)
      else Finite (of_int a / of_int b))"

text \<open>\<^verbatim>\<open>1.0 - x\<close>.\<close>

fun one_minus :: "double \<Rightarrow> double" where
  "one_minus (Finite r) = Finite (1 - r)"
| "one_minus PosInf = NegInf"
| "one_minus NegInf = PosInf"
| "one_minus NaN = NaN"

definition kProbabilityRed :: double where
  "kProbabilityRed = Finite (33 / 100)"

definition kProbabilityGreen :: double where
  "kProbabilityGreen = Finite (1 / 10)"

text \<open>
  The source seeds a fresh \<^verbatim>\<open>std::mt19937\<close> from \<^verbatim>\<open>std::random_device\<close> at every draw.
  The model reads the draws from two given sequences, one draw per call.
\<close>

record random_source =
  bernoulli_draws :: "nat \<Rightarrow> rat"
  uniform_draws :: "nat \<Rightarrow> nat"
  draws_taken :: nat

text \<open>
  \<^verbatim>\<open>check_probability\<close>: \<^verbatim>\<open>std::bernoulli_distribution(p)\<close> requires \<open>0 \<le> p \<le> 1\<close> and
  answers whether a uniform draw from \<open>[0, 1)\<close> is below \<open>p\<close>.
\<close>

definition check_probability :: "double \<Rightarrow> random_source \<Rightarrow> error + (bool \<times> random_source)" where
  "check_probability chance rs =
     (case chance of
        Finite p \<Rightarrow>
          if 0 \<le> p \<and> p \<le> 1
          then Inr (frac (bernoulli_draws rs (draws_taken rs)) < p,
                    rs\<lparr>draws_taken := Suc (draws_taken rs)\<rparr>)
          else Inl UndefinedBehaviour
      | PosInf \<Rightarrow> Inl UndefinedBehaviour
      | NegInf \<Rightarrow> Inl UndefinedBehaviour
      | NaN \<Rightarrow> Inl UndefinedBehaviour)"

definition probaility_generate_grey_edge :: "Depth \<Rightarrow> Depth \<Rightarrow> double" where
  "probaility_generate_grey_edge current_depth graph_depth =
     (if graph_depth = 0 then Finite 1
      else one_minus (double_div (current_depth - kBaseDepth) (graph_depth - kBaseDepth)))"

text \<open>\<^verbatim>\<open>get_random_vertex_id\<close>: \<^verbatim>\<open>std::uniform_int_distribution<>(0, size - 1)\<close> requires \<open>0 \<le> size - 1\<close>.\<close>

definition get_random_vertex_id :: "int \<Rightarrow> random_source \<Rightarrow> error + (VertexId \<times> random_source)" where
  "get_random_vertex_id n_ids rs =
     (if n_ids \<le> 0 then Inl UndefinedBehaviour
      else Inr (int (uniform_draws rs (draws_taken rs) mod nat n_ids),
                rs\<lparr>draws_taken := Suc (draws_taken rs)\<rparr>))"

text \<open>\<^verbatim>\<open>v.at(i)\<close> on a \<^verbatim>\<open>std::vector\<close>.\<close>

definition vector_at :: "'a list \<Rightarrow> int \<Rightarrow> error + 'a" where
  "vector_at xs i = (if 0 \<le> i \<and> nat i < length xs then Inr (xs ! nat i) else Inl OutOfRange)"

fun get_unconnected_vertex_ids :: "Graph \<Rightarrow> VertexId \<Rightarrow> VertexId list \<Rightarrow> error + VertexId list" where
  "get_unconnected_vertex_ids g vertex_from_id [] = Inr []"
| "get_unconnected_vertex_ids g vertex_from_id (vertex_to_id # vertex_ids) =
     (case is_connected g vertex_from_id vertex_to_id of
        Inl e \<Rightarrow> Inl e
      | Inr c \<Rightarrow>
     (case get_unconnected_vertex_ids g vertex_from_id vertex_ids of
        Inl e \<Rightarrow> Inl e
      | Inr rest \<Rightarrow> Inr (if \<not> c then vertex_to_id # rest else rest)))"

definition try_generate_grey_edge ::
  "Params \<Rightarrow> Graph \<Rightarrow> Depth \<Rightarrow> VertexId \<Rightarrow> random_source \<Rightarrow> error + (Graph \<times> random_source)" where
  "try_generate_grey_edge params g current_depth v rs =
     (case check_probability (probaility_generate_grey_edge current_depth (params_depth params)) rs of
        Inl e \<Rightarrow> Inl e
      | Inr (success, rs1) \<Rightarrow>
          if success
          then (case add_vertex g of (next_vertex_id, g1) \<Rightarrow>
                 (case add_edge g1 v next_vertex_id of
                    Inl e \<Rightarrow> Inl e
                  | Inr (_, g2) \<Rightarrow> Inr (g2, rs1)))
          else Inr (g, rs1))"

text \<open>The innermost loop of \<^verbatim>\<open>generate_grey_edges\<close>: \<^verbatim>\<open>new_vertices_count\<close> trials for one vertex.\<close>

fun grey_trials ::
  "Params \<Rightarrow> Depth \<Rightarrow> VertexId \<Rightarrow> nat \<Rightarrow> Graph \<Rightarrow> random_source \<Rightarrow> error + (Graph \<times> random_source)" where
  "grey_trials params current_depth v 0 g rs = Inr (g, rs)"
| "grey_trials params current_depth v (Suc n) g rs =
     (case try_generate_grey_edge params g current_depth v rs of
        Inl e \<Rightarrow> Inl e
      | Inr (g1, rs1) \<Rightarrow> grey_trials params current_depth v n g1 rs1)"

text \<open>The loop over the copied bucket \<^verbatim>\<open>vertices_with_last_depth\<close>.\<close>

fun grey_layer ::
  "Params \<Rightarrow> Depth \<Rightarrow> VertexId list \<Rightarrow> Graph \<Rightarrow> random_source \<Rightarrow> error + (Graph \<times> random_source)" where
  "grey_layer params current_depth [] g rs = Inr (g, rs)"
| "grey_layer params current_depth (v # vs) g rs =
     (case grey_trials params current_depth v (nat (new_vertices_count params)) g rs of
        Inl e \<Rightarrow> Inl e
      | Inr (g1, rs1) \<Rightarrow> grey_layer params current_depth vs g1 rs1)"

text \<open>The outer loop of \<^verbatim>\<open>generate_grey_edges\<close>, from \<^verbatim>\<open>current_depth\<close> on.\<close>

function generate_grey_edges_from ::
  "Params \<Rightarrow> Depth \<Rightarrow> Graph \<Rightarrow> random_source \<Rightarrow> error + (Graph \<times> random_source)" where
  "generate_grey_edges_from params current_depth g rs =
     (if current_depth \<le> params_depth params then
        (case get_vertices_with_depth g current_depth of
           Inl e \<Rightarrow> Inl e
         | Inr vertices_with_last_depth \<Rightarrow>
             if depth g \<noteq> current_depth then Inr (g, rs)
             else
               (case grey_layer params current_depth vertices_with_last_depth g rs of
                  Inl e \<Rightarrow> Inl e
                | Inr (g1, rs1) \<Rightarrow> generate_grey_edges_from params (current_depth + 1) g1 rs1))
      else Inr (g, rs))"
  by pat_completeness auto
termination
  by (relation "measure (\<lambda>(params, current_depth, g, rs). nat (params_depth params + 1 - current_depth))") auto

definition generate_grey_edges :: "Params \<Rightarrow> Graph \<Rightarrow> random_source \<Rightarrow> error + (Graph \<times> random_source)" where
  "generate_grey_edges params g rs = generate_grey_edges_from params kBaseDepth g rs"

definition try_generate_green_edge ::
  "Graph \<Rightarrow> VertexId \<Rightarrow> random_source \<Rightarrow> error + (Graph \<times> random_source)" where
  "try_generate_green_edge g v rs =
     (case check_probability kProbabilityGreen rs of
        Inl e \<Rightarrow> Inl e
      | Inr (success, rs1) \<Rightarrow>
          if success
          then (case add_edge g v v of Inl e \<Rightarrow> Inl e | Inr (_, g1) \<Rightarrow> Inr (g1, rs1))
          else Inr (g, rs1))"

text \<open>
  The loops of the green, yellow and red phases run over \<^verbatim>\<open>graph.get_vertices()\<close>, which
  \<^verbatim>\<open>add_edge\<close> never changes: the list is passed as it is when the phase starts.
\<close>

fun green_loop :: "Vertex list \<Rightarrow> Graph \<Rightarrow> random_source \<Rightarrow> error + (Graph \<times> random_source)" where
  "green_loop [] g rs = Inr (g, rs)"
| "green_loop (vertex # rest) g rs =
     (case try_generate_green_edge g (vertex_id vertex) rs of
        Inl e \<Rightarrow> Inl e
      | Inr (g1, rs1) \<Rightarrow> green_loop rest g1 rs1)"

definition generate_green_edges :: "Graph \<Rightarrow> random_source \<Rightarrow> error + (Graph \<times> random_source)" where
  "generate_green_edges g rs = green_loop (get_vertices g) g rs"

text \<open>\<^verbatim>\<open>try_generate_yellow_edge\<close> and \<^verbatim>\<open>try_generate_red_edge\<close> read the depth of \<^verbatim>\<open>from\<close>, then add the edge.\<close>

definition try_generate_yellow_edge :: "Graph \<Rightarrow> VertexId \<Rightarrow> VertexId \<Rightarrow> error + Graph" where
  "try_generate_yellow_edge g vertex_from_id vertex_to_id =
     (case vertex_depth g vertex_from_id of
        Inl e \<Rightarrow> Inl e
      | Inr vertex_from_depth \<Rightarrow>
          (case add_edge g vertex_from_id vertex_to_id of
             Inl e \<Rightarrow> Inl e
           | Inr (_, g1) \<Rightarrow> Inr g1))"

definition try_generate_red_edge :: "Graph \<Rightarrow> VertexId \<Rightarrow> VertexId \<Rightarrow> error + Graph" where
  "try_generate_red_edge g vertex_from_id vertex_to_id =
     (case vertex_depth g vertex_from_id of
        Inl e \<Rightarrow> Inl e
      | Inr vertex_from_depth \<Rightarrow>
          (case add_edge g vertex_from_id vertex_to_id of
             Inl e \<Rightarrow> Inl e
           | Inr (_, g1) \<Rightarrow> Inr g1))"

text \<open>One iteration of the loop of \<^verbatim>\<open>generate_yellow_edges\<close>.\<close>

definition yellow_step ::
  "Graph \<Rightarrow> VertexId \<Rightarrow> random_source \<Rightarrow> error + (Graph \<times> random_source)" where
  "yellow_step g vertex_from_id rs =
     (case vertex_depth g vertex_from_id of
        Inl e \<Rightarrow> Inl e
      | Inr vertex_depth_value \<Rightarrow>
     (case check_probability
             (one_minus (double_div (vertex_depth_value - kBaseDepth) (depth g - kBaseDepth))) rs of
        Inl e \<Rightarrow> Inl e
      | Inr (success, rs1) \<Rightarrow>
     if \<not> success then
       (case get_vertices_with_depth g (vertex_depth_value + kDifferenceYellowEdge) of
          Inl e \<Rightarrow> Inl e
        | Inr vertex_ids \<Rightarrow>
       (case get_unconnected_vertex_ids g vertex_from_id vertex_ids of
          Inl e \<Rightarrow> Inl e
        | Inr not_connected_vertex_ids \<Rightarrow>
       if not_connected_vertex_ids \<noteq> [] then
         (case get_random_vertex_id (int (length not_connected_vertex_ids)) rs1 of
            Inl e \<Rightarrow> Inl e
          | Inr (i, rs2) \<Rightarrow>
         (case vector_at not_connected_vertex_ids i of
            Inl e \<Rightarrow> Inl e
          | Inr vertex_to_id \<Rightarrow>
         (case try_generate_yellow_edge g vertex_from_id vertex_to_id of
            Inl e \<Rightarrow> Inl e
          | Inr g1 \<Rightarrow> Inr (g1, rs2))))
       else Inr (g, rs1)))
     else Inr (g, rs1)))"

fun yellow_loop :: "Vertex list \<Rightarrow> Graph \<Rightarrow> random_source \<Rightarrow> error + (Graph \<times> random_source)" where
  "yellow_loop [] g rs = Inr (g, rs)"
| "yellow_loop (vertex_from # rest) g rs =
     (case yellow_step g (vertex_id vertex_from) rs of
        Inl e \<Rightarrow> Inl e
      | Inr (g1, rs1) \<Rightarrow> yellow_loop rest g1 rs1)"

definition generate_yellow_edges :: "Graph \<Rightarrow> random_source \<Rightarrow> error + (Graph \<times> random_source)" where
  "generate_yellow_edges g rs = yellow_loop (get_vertices g) g rs"

text \<open>One iteration of the loop of \<^verbatim>\<open>generate_red_edges\<close>.\<close>

definition red_step ::
  "Graph \<Rightarrow> VertexId \<Rightarrow> random_source \<Rightarrow> error + (Graph \<times> random_source)" where
  "red_step g vertex_from_id rs =
     (case check_probability kProbabilityRed rs of
        Inl e \<Rightarrow> Inl e
      | Inr (success, rs1) \<Rightarrow>
     if \<not> success then Inr (g, rs1)
     else
     (case vertex_depth g vertex_from_id of
        Inl e \<Rightarrow> Inl e
      | Inr vertex_depth_value \<Rightarrow>
     (case get_vertices_with_depth g (vertex_depth_value + kDifferenceRedEdge) of
        Inl e \<Rightarrow> Inl e
      | Inr vertex_ids \<Rightarrow>
     if vertex_ids \<noteq> [] then
       (case get_random_vertex_id (int (length vertex_ids)) rs1 of
          Inl e \<Rightarrow> Inl e
        | Inr (i, rs2) \<Rightarrow>
       (case vector_at vertex_ids i of
          Inl e \<Rightarrow> Inl e
        | Inr vertex_to_id \<Rightarrow>
       (case try_generate_red_edge g vertex_from_id vertex_to_id of
          Inl e \<Rightarrow> Inl e
        | Inr g1 \<Rightarrow> Inr (g1, rs2))))
     else Inr (g, rs1))))"

fun red_loop :: "Vertex list \<Rightarrow> Graph \<Rightarrow> random_source \<Rightarrow> error + (Graph \<times> random_source)" where
  "red_loop [] g rs = Inr (g, rs)"
| "red_loop (vertex_from # rest) g rs =
     (case red_step g (vertex_id vertex_from) rs of
        Inl e \<Rightarrow> Inl e
      | Inr (g1, rs1) \<Rightarrow> red_loop rest g1 rs1)"

definition generate_red_edges :: "Graph \<Rightarrow> random_source \<Rightarrow> error + (Graph \<times> random_source)" where
  "generate_red_edges g rs = red_loop (get_vertices g) g rs"

text \<open>\<^verbatim>\<open>GraphGenerator::generate\<close>: the phases run grey, green, yellow, red.\<close>

definition generate :: "Params \<Rightarrow> random_source \<Rightarrow> error + (Graph \<times> random_source)" where
  "generate params rs =
     (if 0 < params_depth params then
        (case add_vertex new_Graph of (_, g0) \<Rightarrow>
        (case generate_grey_edges params g0 rs of
           Inl e \<Rightarrow> Inl e
         | Inr (g1, rs1) \<Rightarrow>
        (case generate_green_edges g1 rs1 of
           Inl e \<Rightarrow> Inl e
         | Inr (g2, rs2) \<Rightarrow>
        (case generate_yellow_edges g2 rs2 of
           Inl e \<Rightarrow> Inl e
         | Inr (g3, rs3) \<Rightarrow> generate_red_edges g3 rs3))))
      else Inr (new_Graph, rs))"


section \<open>Graphs built by calls\<close>

text \<open>
  A client builds a graph from \<^verbatim>\<open>Graph()\<close> by calls of the two mutators. A call of
  \<^verbatim>\<open>add_edge\<close> that stops (a failed assertion, an exception of \<^verbatim>\<open>get_edge_color\<close>) does
  so before its first write, so it leaves the graph as it was.
\<close>

datatype call = AddVertex | AddEdge VertexId VertexId

fun apply_call :: "Graph \<Rightarrow> call \<Rightarrow> Graph" where
  "apply_call g AddVertex = snd (add_vertex g)"
| "apply_call g (AddEdge from_id to_id) =
     (case add_edge g from_id to_id of Inl e \<Rightarrow> g | Inr (_, g1) \<Rightarrow> g1)"

definition build_from :: "Graph \<Rightarrow> call list \<Rightarrow> Graph" where
  "build_from g cs = foldl apply_call g cs"

definition build :: "call list \<Rightarrow> Graph" where
  "build cs = build_from new_Graph cs"

text \<open>Whether a Grey edge into \<open>v\<close> is stored.\<close>

definition has_grey_in :: "Graph \<Rightarrow> VertexId \<Rightarrow> bool" where
  "has_grey_in g v = list_ex (\<lambda>e. color e = Grey \<and> to_vertex_id e = v) (edges g)"

text \<open>What every graph built by calls satisfies; the lemmas below establish it.\<close>

definition graph_inv :: "Graph \<Rightarrow> bool" where
  "graph_inv g =
     ((\<forall>v. Mapping.lookup (adjacency_list g) v \<noteq> None \<longrightarrow> v < vertex_id_counter g) \<and>
      (\<forall>v. Mapping.lookup (vertex_depths g) v \<noteq> None \<longrightarrow> v < vertex_id_counter g) \<and>
      (\<forall>v. Mapping.lookup (adjacency_list g) v = Some [] \<longrightarrow>
           Mapping.lookup (vertex_depths g) v = Some kBaseDepth) \<and>
      (\<forall>e \<in> set (edges g). \<exists>l. Mapping.lookup (adjacency_list g) (to_vertex_id e) = Some l \<and> l \<noteq> []) \<and>
      (\<forall>v d. Mapping.lookup (vertex_depths g) v = Some d \<longrightarrow> kBaseDepth \<le> d) \<and>
      (\<forall>e \<in> set (edges g). (color e = Green) = (from_vertex_id e = to_vertex_id e)) \<and>
      (\<forall>v. (Mapping.lookup (adjacency_list g) v = None) = (Mapping.lookup (vertex_depths g) v = None)))"

section \<open>Reading the definitions\<close>

lemma map_at_Inr: "map_at m k = Inr v \<longleftrightarrow> Mapping.lookup m k = Some v"
  by (simp add: map_at_def split: option.splits)

lemma lookup_emplace_back_at:
  "Mapping.lookup (emplace_back_at m k x) k' =
     (if k' = k then Some (Mapping.lookup_default [] m k @ [x]) else Mapping.lookup m k')"
  by (simp add: emplace_back_at_def Mapping.lookup_update')

text \<open>What a successful \<^verbatim>\<open>get_edge_color\<close> and a successful \<^verbatim>\<open>add_edge\<close> have done.\<close>

lemma get_edge_color_Inr:
  assumes "get_edge_color g f t = Inr c"
  shows "\<exists>df dt. Mapping.lookup (vertex_depths g) f = Some df \<and>
           Mapping.lookup (vertex_depths g) t = Some dt \<and>
           ((c = Green) = (f = t)) \<and>
           (c = Grey \<longrightarrow> Mapping.lookup (adjacency_list g) t = Some []) \<and>
           (c = Yellow \<longrightarrow> dt - df = kDifferenceYellowEdge \<and> is_connected g f t = Inr False) \<and>
           (c = Red \<longrightarrow> dt - df = kDifferenceRedEdge)"
  using assms
  by (auto simp: get_edge_color_def map_at_def split: option.splits sum.splits if_splits)

lemma add_edge_Inr:
  assumes "add_edge g f t = Inr (i, g')"
  shows "\<exists>c. get_edge_color g f t = Inr c \<and> has_vertex g f \<and> has_vertex g t \<and>
           i = edge_id_counter g \<and>
           vertex_id_counter g' = vertex_id_counter g \<and>
           edge_id_counter g' = edge_id_counter g + 1 \<and>
           vertices g' = vertices g \<and>
           edges g' = edges g @ [\<lparr>edge_id = i, from_vertex_id = f, to_vertex_id = t, color = c\<rparr>] \<and>
           adjacency_list g' =
             emplace_back_at (if f \<noteq> i then emplace_back_at (adjacency_list g) f i else adjacency_list g) t i \<and>
           (c \<noteq> Grey \<longrightarrow> vertex_depths g' = vertex_depths g \<and> depth_to_vertices g' = depth_to_vertices g) \<and>
           (c = Grey \<longrightarrow> (\<exists>df. Mapping.lookup (vertex_depths g) f = Some df \<and>
                vertex_depths g' = Mapping.update t (df + 1) (vertex_depths g)))"
  using assms
  by (auto simp: add_edge_def vertex_depth_def map_at_def get_new_edge_id_def set_vertex_depth_def Let_def
      split: option.splits sum.splits if_splits)

lemma add_vertex_fields:
  "fst (add_vertex g) = vertex_id_counter g"
  "vertex_id_counter (snd (add_vertex g)) = vertex_id_counter g + 1"
  "edge_id_counter (snd (add_vertex g)) = edge_id_counter g"
  "vertices (snd (add_vertex g)) = vertices g @ [Vertex (vertex_id_counter g)]"
  "edges (snd (add_vertex g)) = edges g"
  "adjacency_list (snd (add_vertex g)) = Mapping.update (vertex_id_counter g) [] (adjacency_list g)"
  "vertex_depths (snd (add_vertex g)) = Mapping.update (vertex_id_counter g) kBaseDepth (vertex_depths g)"
  "depth_to_vertices (snd (add_vertex g)) =
     emplace_back_at (depth_to_vertices g) kBaseDepth (vertex_id_counter g)"
  by (simp_all add: add_vertex_def get_new_vertex_id_def)

lemmas eval_defs =
  build_def build_from_def add_vertex_def add_edge_def get_new_vertex_id_def get_new_edge_id_def
  new_Graph_def has_vertex_def get_edge_color_def map_at_def emplace_back_at_def
  set_vertex_depth_def vertex_depth_def is_connected_def connected_edges_ids_def
  get_vertices_with_depth_def get_vertices_def get_edges_def has_grey_in_def
  kBaseDepth_def kDifferenceRedEdge_def kDifferenceYellowEdge_def
  Mapping.lookup_default_def Mapping.lookup_update' Let_def

section \<open>The invariant of built graphs\<close>

lemma graph_inv_new_Graph: "graph_inv new_Graph"
  by (simp add: graph_inv_def new_Graph_def)

lemma graph_inv_add_vertex:
  assumes "graph_inv g"
  shows "graph_inv (snd (add_vertex g))"
proof -
  let ?n = "vertex_id_counter g"
  have "\<not> ?n < ?n" by simp
  with assms have fresh: "Mapping.lookup (adjacency_list g) ?n = None"
    unfolding graph_inv_def by blast
  have c1: "\<forall>v. Mapping.lookup (adjacency_list (snd (add_vertex g))) v \<noteq> None \<longrightarrow>
      v < vertex_id_counter (snd (add_vertex g))"
  proof (intro allI impI)
    fix v assume a: "Mapping.lookup (adjacency_list (snd (add_vertex g))) v \<noteq> None"
    show "v < vertex_id_counter (snd (add_vertex g))"
    proof (cases "v = ?n")
      case True
      then show ?thesis by (simp add: add_vertex_fields)
    next
      case False
      with a have "Mapping.lookup (adjacency_list g) v \<noteq> None"
        by (simp add: add_vertex_fields Mapping.lookup_update')
      with assms have "v < ?n" unfolding graph_inv_def by blast
      then show ?thesis by (simp add: add_vertex_fields)
    qed
  qed
  have c2: "\<forall>v. Mapping.lookup (vertex_depths (snd (add_vertex g))) v \<noteq> None \<longrightarrow>
      v < vertex_id_counter (snd (add_vertex g))"
  proof (intro allI impI)
    fix v assume a: "Mapping.lookup (vertex_depths (snd (add_vertex g))) v \<noteq> None"
    show "v < vertex_id_counter (snd (add_vertex g))"
    proof (cases "v = ?n")
      case True
      then show ?thesis by (simp add: add_vertex_fields)
    next
      case False
      with a have "Mapping.lookup (vertex_depths g) v \<noteq> None"
        by (simp add: add_vertex_fields Mapping.lookup_update')
      with assms have "v < ?n" unfolding graph_inv_def by blast
      then show ?thesis by (simp add: add_vertex_fields)
    qed
  qed
  have c3: "\<forall>v. Mapping.lookup (adjacency_list (snd (add_vertex g))) v = Some [] \<longrightarrow>
      Mapping.lookup (vertex_depths (snd (add_vertex g))) v = Some kBaseDepth"
    using assms unfolding graph_inv_def add_vertex_fields
    by (simp add: Mapping.lookup_update')
  have c4: "\<forall>e \<in> set (edges (snd (add_vertex g))).
      \<exists>l. Mapping.lookup (adjacency_list (snd (add_vertex g))) (to_vertex_id e) = Some l \<and> l \<noteq> []"
  proof
    fix e assume "e \<in> set (edges (snd (add_vertex g)))"
    then have "e \<in> set (edges g)" by (simp add: add_vertex_fields)
    then obtain l where l: "Mapping.lookup (adjacency_list g) (to_vertex_id e) = Some l" "l \<noteq> []"
      using assms unfolding graph_inv_def by blast
    then have "to_vertex_id e \<noteq> ?n" using fresh by auto
    then show "\<exists>l. Mapping.lookup (adjacency_list (snd (add_vertex g))) (to_vertex_id e) = Some l \<and> l \<noteq> []"
      using l by (simp add: add_vertex_fields Mapping.lookup_update')
  qed
  have c5: "\<forall>v d. Mapping.lookup (vertex_depths (snd (add_vertex g))) v = Some d \<longrightarrow> kBaseDepth \<le> d"
    using assms unfolding graph_inv_def add_vertex_fields
    by (simp add: Mapping.lookup_update')
  have c6: "\<forall>e \<in> set (edges (snd (add_vertex g))). (color e = Green) = (from_vertex_id e = to_vertex_id e)"
    using assms unfolding graph_inv_def add_vertex_fields by simp
  have c7: "\<forall>v. (Mapping.lookup (adjacency_list (snd (add_vertex g))) v = None) =
      (Mapping.lookup (vertex_depths (snd (add_vertex g))) v = None)"
    using assms unfolding graph_inv_def add_vertex_fields
    by (simp add: Mapping.lookup_update')
  show ?thesis
    unfolding graph_inv_def by (intro conjI c1 c2 c3 c4 c5 c6 c7)
qed

lemma graph_inv_add_edge:
  assumes inv: "graph_inv g" and ae: "add_edge g f t = Inr (i, g')"
  shows "graph_inv g'"
proof -
  from add_edge_Inr [OF ae] obtain c where
    col: "get_edge_color g f t = Inr c" and hf: "has_vertex g f" and ht: "has_vertex g t" and
    vc: "vertex_id_counter g' = vertex_id_counter g" and
    es: "edges g' = edges g @ [\<lparr>edge_id = i, from_vertex_id = f, to_vertex_id = t, color = c\<rparr>]" and
    adj: "adjacency_list g' =
       emplace_back_at (if f \<noteq> i then emplace_back_at (adjacency_list g) f i else adjacency_list g) t i" and
    ng: "c \<noteq> Grey \<longrightarrow> vertex_depths g' = vertex_depths g" and
    gr: "c = Grey \<longrightarrow> (\<exists>df. Mapping.lookup (vertex_depths g) f = Some df \<and>
                vertex_depths g' = Mapping.update t (df + 1) (vertex_depths g))"
    by blast
  from get_edge_color_Inr [OF col] obtain df dt where
    df: "Mapping.lookup (vertex_depths g) f = Some df" and
    dt: "Mapping.lookup (vertex_depths g) t = Some dt" and
    green: "(c = Green) = (f = t)"
    by blast
  have vd: "vertex_depths g' = (if c = Grey then Mapping.update t (df + 1) (vertex_depths g) else vertex_depths g)"
    using ng gr df by auto
  have adj_lookup: "\<And>v. Mapping.lookup (adjacency_list g') v =
      (if v = t then Some (the (Mapping.lookup (adjacency_list g') t))
       else if v = f \<and> f \<noteq> i then Some (Mapping.lookup_default [] (adjacency_list g) f @ [i])
       else Mapping.lookup (adjacency_list g) v)"
    unfolding adj by (simp add: lookup_emplace_back_at)
  have adj_t: "\<exists>l. Mapping.lookup (adjacency_list g') t = Some l \<and> l \<noteq> []"
    unfolding adj by (simp add: lookup_emplace_back_at)
  have keys: "\<And>v. Mapping.lookup (adjacency_list g') v \<noteq> None \<Longrightarrow> Mapping.lookup (adjacency_list g) v \<noteq> None"
    using hf ht unfolding adj has_vertex_def by (auto simp: lookup_emplace_back_at split: if_splits)
  have empty: "\<And>v. Mapping.lookup (adjacency_list g') v = Some [] \<Longrightarrow>
      v \<noteq> t \<and> Mapping.lookup (adjacency_list g) v = Some []"
    unfolding adj by (auto simp: lookup_emplace_back_at split: if_splits)
  have nonempty: "\<And>v l. Mapping.lookup (adjacency_list g) v = Some l \<Longrightarrow> l \<noteq> [] \<Longrightarrow>
      \<exists>l'. Mapping.lookup (adjacency_list g') v = Some l' \<and> l' \<noteq> []"
    unfolding adj by (auto simp: lookup_emplace_back_at Mapping.lookup_default_def split: if_splits)
  have df1: "kBaseDepth \<le> df" using inv df unfolding graph_inv_def by blast
  have c1: "\<forall>v. Mapping.lookup (adjacency_list g') v \<noteq> None \<longrightarrow> v < vertex_id_counter g'"
    using inv keys vc unfolding graph_inv_def by metis
  have c2: "\<forall>v. Mapping.lookup (vertex_depths g') v \<noteq> None \<longrightarrow> v < vertex_id_counter g'"
    using inv dt vc unfolding graph_inv_def vd by (auto simp: Mapping.lookup_update' split: if_splits)
  have c3: "\<forall>v. Mapping.lookup (adjacency_list g') v = Some [] \<longrightarrow>
           Mapping.lookup (vertex_depths g') v = Some kBaseDepth"
  proof (intro allI impI)
    fix v assume "Mapping.lookup (adjacency_list g') v = Some []"
    from empty [OF this] have "v \<noteq> t" and "Mapping.lookup (adjacency_list g) v = Some []" by auto
    then show "Mapping.lookup (vertex_depths g') v = Some kBaseDepth"
      using inv unfolding graph_inv_def vd by (auto simp: Mapping.lookup_update')
  qed
  have c4: "\<forall>e \<in> set (edges g'). \<exists>l. Mapping.lookup (adjacency_list g') (to_vertex_id e) = Some l \<and> l \<noteq> []"
  proof
    fix e assume "e \<in> set (edges g')"
    then consider "e \<in> set (edges g)" | "to_vertex_id e = t" unfolding es by auto
    then show "\<exists>l. Mapping.lookup (adjacency_list g') (to_vertex_id e) = Some l \<and> l \<noteq> []"
    proof cases
      case 1
      then obtain l where "Mapping.lookup (adjacency_list g) (to_vertex_id e) = Some l" "l \<noteq> []"
        using inv unfolding graph_inv_def by blast
      then show ?thesis by (rule nonempty)
    next
      case 2
      then show ?thesis using adj_t by simp
    qed
  qed
  have c5: "\<forall>v d. Mapping.lookup (vertex_depths g') v = Some d \<longrightarrow> kBaseDepth \<le> d"
    using inv df1 unfolding graph_inv_def vd by (auto simp: Mapping.lookup_update' split: if_splits)
  have c6: "\<forall>e \<in> set (edges g'). (color e = Green) = (from_vertex_id e = to_vertex_id e)"
    using inv green unfolding graph_inv_def es by auto
  have keys': "\<And>v. Mapping.lookup (adjacency_list g) v \<noteq> None \<Longrightarrow> Mapping.lookup (adjacency_list g') v \<noteq> None"
    unfolding adj by (simp add: lookup_emplace_back_at)
  have vkeys: "\<And>v. (Mapping.lookup (vertex_depths g') v = None) = (Mapping.lookup (vertex_depths g) v = None)"
    using dt unfolding vd by (auto simp: Mapping.lookup_update')
  have c7: "\<forall>v. (Mapping.lookup (adjacency_list g') v = None) = (Mapping.lookup (vertex_depths g') v = None)"
  proof
    fix v
    have "(Mapping.lookup (adjacency_list g') v = None) = (Mapping.lookup (adjacency_list g) v = None)"
      using keys [of v] keys' [of v] by blast
    also have "\<dots> = (Mapping.lookup (vertex_depths g) v = None)"
      using inv unfolding graph_inv_def by blast
    finally show "(Mapping.lookup (adjacency_list g') v = None) = (Mapping.lookup (vertex_depths g') v = None)"
      using vkeys by simp
  qed
  show ?thesis
    unfolding graph_inv_def by (intro conjI c1 c2 c3 c4 c5 c6 c7)
qed

lemma graph_inv_apply_call: "graph_inv g \<Longrightarrow> graph_inv (apply_call g c)"
proof (cases c)
  case AddVertex
  assume "graph_inv g"
  then show ?thesis using AddVertex by (simp add: graph_inv_add_vertex)
next
  case (AddEdge f t)
  assume "graph_inv g"
  then show ?thesis using AddEdge
    by (auto split: sum.splits intro: graph_inv_add_edge)
qed

lemma graph_inv_build_from: "graph_inv g \<Longrightarrow> graph_inv (build_from g cs)"
  unfolding build_from_def
  by (induction cs arbitrary: g) (simp_all add: graph_inv_apply_call)

lemma graph_inv_build: "graph_inv (build cs)"
  unfolding build_def by (rule graph_inv_build_from [OF graph_inv_new_Graph])

lemma graph_inv_same_keys:
  "graph_inv g \<Longrightarrow> (Mapping.lookup (adjacency_list g) v = None) = (Mapping.lookup (vertex_depths g) v = None)"
  by (simp add: graph_inv_def)

lemma graph_inv_empty_base:
  "graph_inv g \<Longrightarrow> Mapping.lookup (adjacency_list g) v = Some [] \<Longrightarrow>
     Mapping.lookup (vertex_depths g) v = Some kBaseDepth"
  by (simp add: graph_inv_def)

lemma graph_inv_edge_to:
  "graph_inv g \<Longrightarrow> e \<in> set (edges g) \<Longrightarrow>
     \<exists>l. Mapping.lookup (adjacency_list g) (to_vertex_id e) = Some l \<and> l \<noteq> []"
  by (simp add: graph_inv_def)

lemma graph_inv_depth_ge:
  "graph_inv g \<Longrightarrow> Mapping.lookup (vertex_depths g) v = Some d \<Longrightarrow> kBaseDepth \<le> d"
  by (simp add: graph_inv_def)


lemma graph_inv_depth_key_bound:
  "graph_inv g \<Longrightarrow> Mapping.lookup (vertex_depths g) v \<noteq> None \<Longrightarrow> v < vertex_id_counter g"
  by (simp add: graph_inv_def)

lemma get_edge_color_missing:
  assumes "graph_inv g" and "\<not> has_vertex g f \<or> \<not> has_vertex g t"
  shows "get_edge_color g f t = Inl OutOfRange"
proof -
  from assms(2) have "Mapping.lookup (vertex_depths g) f = None \<or> Mapping.lookup (vertex_depths g) t = None"
    unfolding has_vertex_def
    using graph_inv_same_keys [OF assms(1), of f] graph_inv_same_keys [OF assms(1), of t] by simp
  then show ?thesis
    by (auto simp: get_edge_color_def map_at_def split: option.splits)
qed

section \<open>Depths along a sequence of calls\<close>

lemma apply_call_edges_prefix: "\<exists>es. edges (apply_call g c) = edges g @ es"
proof (cases c)
  case AddVertex
  then show ?thesis by (simp add: add_vertex_fields)
next
  case (AddEdge f t)
  show ?thesis
  proof (cases "add_edge g f t")
    case (Inl e)
    then show ?thesis using AddEdge by simp
  next
    case (Inr p)
    obtain i g' where p: "p = (i, g')" by (cases p)
    from add_edge_Inr [OF Inr [unfolded p]] show ?thesis using AddEdge Inr p by auto
  qed
qed

lemma has_grey_in_apply_call: "has_grey_in g v \<Longrightarrow> has_grey_in (apply_call g c) v"
proof -
  assume a: "has_grey_in g v"
  obtain es where "edges (apply_call g c) = edges g @ es" using apply_call_edges_prefix by blast
  with a show ?thesis by (simp add: has_grey_in_def)
qed

lemma apply_call_depth_step:
  assumes inv: "graph_inv g" and d: "Mapping.lookup (vertex_depths g) v = Some d"
  shows "Mapping.lookup (vertex_depths (apply_call g c)) v = Some d \<or>
         (d = kBaseDepth \<and> \<not> has_grey_in g v \<and> has_grey_in (apply_call g c) v \<and>
          (\<exists>f df. c = AddEdge f v \<and> Mapping.lookup (vertex_depths g) f = Some df \<and>
             Mapping.lookup (vertex_depths (apply_call g c)) v = Some (df + 1) \<and> d < df + 1))"
proof (cases c)
  case AddVertex
  from graph_inv_depth_key_bound [OF inv, of v] d have "v \<noteq> vertex_id_counter g" by auto
  then show ?thesis using AddVertex d by (simp add: add_vertex_fields Mapping.lookup_update')
next
  case (AddEdge f t)
  show ?thesis
  proof (cases "add_edge g f t")
    case (Inl e)
    then show ?thesis using AddEdge d by simp
  next
    case (Inr p)
    obtain i g' where p: "p = (i, g')" by (cases p)
    have ae: "add_edge g f t = Inr (i, g')" using Inr p by simp
    have g': "apply_call g c = g'" using AddEdge ae by simp
    from add_edge_Inr [OF ae] obtain col where
      col: "get_edge_color g f t = Inr col" and
      es: "edges g' = edges g @ [\<lparr>edge_id = i, from_vertex_id = f, to_vertex_id = t, color = col\<rparr>]" and
      ng: "col \<noteq> Grey \<longrightarrow> vertex_depths g' = vertex_depths g" and
      gr: "col = Grey \<longrightarrow> (\<exists>df. Mapping.lookup (vertex_depths g) f = Some df \<and>
                vertex_depths g' = Mapping.update t (df + 1) (vertex_depths g))"
      by blast
    show ?thesis
    proof (cases "col = Grey \<and> v = t")
      case False
      then have "Mapping.lookup (vertex_depths g') v = Some d"
        using ng gr d by (auto simp: Mapping.lookup_update')
      then show ?thesis using g' by simp
    next
      case True
      then have grey: "col = Grey" and vt: "v = t" by simp_all
      from gr grey obtain df where
        df: "Mapping.lookup (vertex_depths g) f = Some df" and
        vd: "vertex_depths g' = Mapping.update t (df + 1) (vertex_depths g)" by blast
      from get_edge_color_Inr [OF col] grey
      have empty: "Mapping.lookup (adjacency_list g) t = Some []" by blast
      from graph_inv_empty_base [OF inv empty] d vt have base: "d = kBaseDepth" by simp
      have nogrey: "\<not> has_grey_in g v"
      proof
        assume "has_grey_in g v"
        then obtain e where "e \<in> set (edges g)" and "to_vertex_id e = v"
          by (auto simp: has_grey_in_def list_ex_iff)
        with graph_inv_edge_to [OF inv, of e] empty vt show False by auto
      qed
      have now: "has_grey_in g' v"
        unfolding has_grey_in_def es using grey vt by simp
      from graph_inv_depth_ge [OF inv df] base have lt: "d < df + 1" by simp
      have "Mapping.lookup (vertex_depths g') v = Some (df + 1)"
        unfolding vd using vt by simp
      then show ?thesis using base nogrey now lt df AddEdge vt g' by auto
    qed
  qed
qed

lemma apply_call_depth_mono:
  assumes inv: "graph_inv g" and d: "Mapping.lookup (vertex_depths g) v = Some d"
  shows "\<exists>d'. Mapping.lookup (vertex_depths (apply_call g c)) v = Some d' \<and> d \<le> d' \<and>
           (has_grey_in g v \<longrightarrow> d' = d)"
  using apply_call_depth_step [OF inv d, of c] by auto

lemma build_from_depth_mono:
  assumes "graph_inv g" and "Mapping.lookup (vertex_depths g) v = Some d"
  shows "\<exists>d'. Mapping.lookup (vertex_depths (build_from g cs)) v = Some d' \<and> d \<le> d' \<and>
           (has_grey_in g v \<longrightarrow> d' = d)"
  using assms
proof (induction cs arbitrary: g d)
  case Nil
  then show ?case by (simp add: build_from_def)
next
  case (Cons c cs)
  from apply_call_depth_mono [OF Cons.prems, of c] obtain d1 where
    d1: "Mapping.lookup (vertex_depths (apply_call g c)) v = Some d1" and le1: "d \<le> d1" and
    fix1: "has_grey_in g v \<longrightarrow> d1 = d" by blast
  from Cons.IH [OF graph_inv_apply_call [OF Cons.prems(1)] d1] obtain d' where
    d': "Mapping.lookup (vertex_depths (build_from (apply_call g c) cs)) v = Some d'" and le2: "d1 \<le> d'" and
    fix2: "has_grey_in (apply_call g c) v \<longrightarrow> d' = d1" by blast
  have "build_from g (c # cs) = build_from (apply_call g c) cs" by (simp add: build_from_def)
  moreover have "d \<le> d'" using le1 le2 by simp
  moreover have "has_grey_in g v \<longrightarrow> d' = d"
    using fix1 fix2 has_grey_in_apply_call [of g v c] by auto
  ultimately show ?case using d' by auto
qed

lemma build_append: "build (cs @ cs2) = build_from (build cs) cs2"
  by (simp add: build_def build_from_def)

lemma add_vertex_is_new:
  assumes "graph_inv g"
  shows "Mapping.lookup (vertex_depths g) (fst (add_vertex g)) = None"
proof -
  have "\<not> vertex_id_counter g < vertex_id_counter g" by simp
  with graph_inv_depth_key_bound [OF assms, of "vertex_id_counter g"]
  show ?thesis by (cases "Mapping.lookup (vertex_depths g) (vertex_id_counter g)") (simp_all add: add_vertex_fields)
qed

text \<open>A call of \<^verbatim>\<open>add_edge\<close> that \<^verbatim>\<open>get_edge_color\<close> classifies Grey succeeds and raises the depth.\<close>

lemma grey_add_edge_raises:
  assumes inv: "graph_inv g" and col: "get_edge_color g f v = Inr Grey"
  shows "\<exists>g' df. add_edge g f v = Inr (edge_id_counter g, g') \<and>
           apply_call g (AddEdge f v) = g' \<and>
           Mapping.lookup (vertex_depths g) f = Some df \<and>
           Mapping.lookup (vertex_depths g) v = Some kBaseDepth \<and>
           Mapping.lookup (vertex_depths g') v = Some (df + 1) \<and>
           kBaseDepth < df + 1 \<and>
           \<not> has_grey_in g v \<and> has_grey_in g' v"
proof -
  from get_edge_color_Inr [OF col] obtain df dt where
    df: "Mapping.lookup (vertex_depths g) f = Some df" and
    dt: "Mapping.lookup (vertex_depths g) v = Some dt" and
    empty: "Mapping.lookup (adjacency_list g) v = Some []"
    by blast
  have hf: "has_vertex g f"
    using graph_inv_same_keys [OF inv, of f] df by (simp add: has_vertex_def)
  have hv: "has_vertex g v" using empty by (simp add: has_vertex_def)
  have "\<exists>g'. add_edge g f v = Inr (edge_id_counter g, g')"
    using hf hv col df
    by (simp add: add_edge_def vertex_depth_def map_at_def get_new_edge_id_def
        set_vertex_depth_def Let_def)
  then obtain g' where ae: "add_edge g f v = Inr (edge_id_counter g, g')" by blast
  from add_edge_Inr [OF ae] col obtain df' where
    es: "edges g' = edges g @
       [\<lparr>edge_id = edge_id_counter g, from_vertex_id = f, to_vertex_id = v, color = Grey\<rparr>]" and
    df': "Mapping.lookup (vertex_depths g) f = Some df'" and
    vd: "vertex_depths g' = Mapping.update v (df' + 1) (vertex_depths g)"
    by auto
  from df df' have same: "df' = df" by simp
  have base: "Mapping.lookup (vertex_depths g) v = Some kBaseDepth"
    by (rule graph_inv_empty_base [OF inv empty])
  have raised: "Mapping.lookup (vertex_depths g') v = Some (df + 1)"
    unfolding vd same by simp
  from graph_inv_depth_ge [OF inv df] have lt: "kBaseDepth < df + 1" by simp
  have nogrey: "\<not> has_grey_in g v"
  proof
    assume "has_grey_in g v"
    then obtain e where "e \<in> set (edges g)" and "to_vertex_id e = v"
      by (auto simp: has_grey_in_def list_ex_iff)
    with graph_inv_edge_to [OF inv, of e] empty show False by auto
  qed
  have now: "has_grey_in g' v" unfolding has_grey_in_def es by simp
  have "apply_call g (AddEdge f v) = g'" using ae by simp
  with ae df base raised lt nogrey now show ?thesis by blast
qed

section \<open>The claims\<close>

subsection \<open>Adjacency registration\<close>

text \<open>
  C1 says that \<^verbatim>\<open>add_edge(from, to)\<close> appends the new edge id to the adjacency lists of
  both endpoints, and only once for a self-loop. The source guards the first append with
  \<^verbatim>\<open>from_vertex_id != edge_id\<close>, a vertex id against the new edge id, where the self-loop
  test \<^verbatim>\<open>from_vertex_id != to_vertex_id\<close> belongs. On a graph of two vertices and no
  edge, the self-loop \<^verbatim>\<open>add_edge(1, 1)\<close> gets edge id 0 and is stored twice in the list of
  vertex 1; \<^verbatim>\<open>add_edge(0, 1)\<close> gets edge id 0, equal to \<^verbatim>\<open>from\<close>, and is not stored in
  the list of vertex 0 at all.
\<close>

theorem add_edge_registers_self_loop_twice:
  "(\<exists>g. add_edge (build [AddVertex, AddVertex]) 1 1 = Inr (0, g) \<and>
        connected_edges_ids g 1 = Inr [0, 0]) \<and>
   (\<exists>g. add_edge (build [AddVertex, AddVertex]) 0 1 = Inr (0, g) \<and>
        connected_edges_ids g 0 = Inr [] \<and> connected_edges_ids g 1 = Inr [0])"
  by (simp add: eval_defs)

subsection \<open>Depths\<close>

text \<open>
  C2: in a graph built by any sequence of \<^verbatim>\<open>add_vertex\<close> and \<^verbatim>\<open>add_edge\<close> calls, a
  vertex has depth 1 when it is created (and had no depth before); one further call
  either leaves the depth \<open>d\<close> of a vertex as it is, or the vertex had the base depth and
  no incoming Grey edge, the call is an \<^verbatim>\<open>add_edge(f, v)\<close> that stores its first incoming
  Grey edge, and the depth becomes the depth of \<open>f\<close> plus one, which is larger; and
  after any further calls \<open>cs2\<close> the depth is never below \<open>d\<close>, and equal to \<open>d\<close> when
  the vertex already had an incoming Grey edge. Conversely, every \<^verbatim>\<open>add_edge(from, v)\<close>
  that \<^verbatim>\<open>get_edge_color\<close> classifies Grey succeeds, stores the first incoming Grey edge
  of \<open>v\<close>, and raises the depth of \<open>v\<close> from the base depth to the depth of
  \<^verbatim>\<open>from\<close> plus one.
\<close>

theorem vertex_depth_raised_at_most_once:
  "vertex_depth (build cs) (fst (add_vertex (build cs))) = Inl OutOfRange \<and>
   vertex_depth (snd (add_vertex (build cs))) (fst (add_vertex (build cs))) = Inr kBaseDepth \<and>
   (vertex_depth (build cs) v = Inr d \<longrightarrow>
      (vertex_depth (apply_call (build cs) c) v = Inr d \<or>
       (d = kBaseDepth \<and> \<not> has_grey_in (build cs) v \<and> has_grey_in (apply_call (build cs) c) v \<and>
        (\<exists>f df. c = AddEdge f v \<and> vertex_depth (build cs) f = Inr df \<and>
           vertex_depth (apply_call (build cs) c) v = Inr (df + 1) \<and> d < df + 1))) \<and>
      (\<exists>d'. vertex_depth (build (cs @ cs2)) v = Inr d' \<and> d \<le> d' \<and>
           (has_grey_in (build cs) v \<longrightarrow> d' = d))) \<and>
   (get_edge_color (build cs) from_id v = Inr Grey \<longrightarrow>
      (\<exists>g' df. add_edge (build cs) from_id v = Inr (edge_id_counter (build cs), g') \<and>
         apply_call (build cs) (AddEdge from_id v) = g' \<and>
         vertex_depth (build cs) from_id = Inr df \<and>
         vertex_depth (build cs) v = Inr kBaseDepth \<and>
         vertex_depth g' v = Inr (df + 1) \<and> kBaseDepth < df + 1 \<and>
         \<not> has_grey_in (build cs) v \<and> has_grey_in g' v))"
proof (intro conjI impI)
  show "vertex_depth (build cs) (fst (add_vertex (build cs))) = Inl OutOfRange"
    using add_vertex_is_new [OF graph_inv_build, of cs] by (simp add: vertex_depth_def map_at_def)
  show "vertex_depth (snd (add_vertex (build cs))) (fst (add_vertex (build cs))) = Inr kBaseDepth"
    by (simp add: vertex_depth_def map_at_def add_vertex_fields)
next
  assume "vertex_depth (build cs) v = Inr d"
  then have d: "Mapping.lookup (vertex_depths (build cs)) v = Some d"
    by (simp add: vertex_depth_def map_at_Inr)
  from apply_call_depth_step [OF graph_inv_build d, of c]
  show "vertex_depth (apply_call (build cs) c) v = Inr d \<or>
       (d = kBaseDepth \<and> \<not> has_grey_in (build cs) v \<and> has_grey_in (apply_call (build cs) c) v \<and>
        (\<exists>f df. c = AddEdge f v \<and> vertex_depth (build cs) f = Inr df \<and>
           vertex_depth (apply_call (build cs) c) v = Inr (df + 1) \<and> d < df + 1))"
    by (simp add: vertex_depth_def map_at_Inr)
  from build_from_depth_mono [OF graph_inv_build d, of cs2]
  show "\<exists>d'. vertex_depth (build (cs @ cs2)) v = Inr d' \<and> d \<le> d' \<and>
           (has_grey_in (build cs) v \<longrightarrow> d' = d)"
    by (simp add: vertex_depth_def map_at_Inr build_append)
next
  assume "get_edge_color (build cs) from_id v = Inr Grey"
  from grey_add_edge_raises [OF graph_inv_build this]
  show "\<exists>g' df. add_edge (build cs) from_id v = Inr (edge_id_counter (build cs), g') \<and>
         apply_call (build cs) (AddEdge from_id v) = g' \<and>
         vertex_depth (build cs) from_id = Inr df \<and>
         vertex_depth (build cs) v = Inr kBaseDepth \<and>
         vertex_depth g' v = Inr (df + 1) \<and> kBaseDepth < df + 1 \<and>
         \<not> has_grey_in (build cs) v \<and> has_grey_in g' v"
    by (simp add: vertex_depth_def map_at_Inr)
qed

theorem vertex_depth_raised_at_most_once_witness:
  "get_edge_color (build [AddVertex, AddVertex]) 0 1 = Inr Grey \<and>
   vertex_depth (build [AddVertex, AddVertex]) 0 = Inr 1 \<and>
   vertex_depth (build [AddVertex, AddVertex]) 1 = Inr 1 \<and>
   vertex_depth (apply_call (build [AddVertex, AddVertex]) (AddEdge 0 1)) 1 = Inr 2 \<and>
   has_grey_in (build [AddVertex, AddVertex, AddEdge 0 1]) 1 \<and>
   vertex_depth (build [AddVertex, AddVertex, AddEdge 0 1]) 1 = Inr 2 \<and>
   vertex_depth (build ([AddVertex, AddVertex, AddEdge 0 1] @ [AddEdge 0 1, AddEdge 1 1, AddVertex])) 1 = Inr 2"
proof -
  let ?vs = "[AddVertex, AddVertex]"
  let ?cs = "[AddVertex, AddVertex, AddEdge 0 1]"
  have h0: "get_edge_color (build ?vs) 0 1 = Inr Grey" by (simp add: eval_defs)
  have h1: "vertex_depth (build ?cs) 1 = Inr 2" by (simp add: eval_defs)
  have h2: "has_grey_in (build ?cs) 1" by (simp add: eval_defs)
  have h3: "vertex_depth (build ?vs) 1 = Inr 1" by (simp add: eval_defs)
  have h5: "vertex_depth (build ?vs) 0 = Inr 1" by (simp add: eval_defs)
  from vertex_depth_raised_at_most_once
         [where cs = ?vs and v = 1 and d = 1 and c = "AddEdge 0 1" and ?cs2.0 = "[]" and from_id = 0] h0
  obtain g' df where
    "apply_call (build ?vs) (AddEdge 0 1) = g'" and
    "vertex_depth (build ?vs) 0 = Inr df" and "vertex_depth g' 1 = Inr (df + 1)"
    by blast
  with h5 have h4: "vertex_depth (apply_call (build ?vs) (AddEdge 0 1)) 1 = Inr 2" by simp
  from vertex_depth_raised_at_most_once
         [where cs = ?cs and v = 1 and d = 2 and c = AddVertex and
            ?cs2.0 = "[AddEdge 0 1, AddEdge 1 1, AddVertex]" and from_id = 0] h1 h2
  have "vertex_depth (build (?cs @ [AddEdge 0 1, AddEdge 1 1, AddVertex])) 1 = Inr 2" by auto
  with h0 h1 h2 h3 h4 h5 show ?thesis by blast
qed

text \<open>
  C10: in a graph built by any sequence of calls, a vertex whose adjacency list is empty
  has the base depth 1.
\<close>

theorem empty_adjacency_has_base_depth:
  assumes "has_vertex (build cs) v" and "connected_edges_ids (build cs) v = Inr []"
  shows "vertex_depth (build cs) v = Inr kBaseDepth"
proof -
  from assms have "Mapping.lookup (adjacency_list (build cs)) v = Some []"
    by (simp add: connected_edges_ids_def map_at_Inr)
  from graph_inv_empty_base [OF graph_inv_build this]
  show ?thesis by (simp add: vertex_depth_def map_at_Inr)
qed

theorem empty_adjacency_has_base_depth_witness:
  "has_vertex (build [AddVertex, AddVertex]) 1 \<and>
   connected_edges_ids (build [AddVertex, AddVertex]) 1 = Inr [] \<and>
   vertex_depth (build [AddVertex, AddVertex]) 1 = Inr kBaseDepth"
proof -
  have h1: "has_vertex (build [AddVertex, AddVertex]) 1" by (simp add: eval_defs)
  have h2: "connected_edges_ids (build [AddVertex, AddVertex]) 1 = Inr []" by (simp add: eval_defs)
  from empty_adjacency_has_base_depth [OF h1 h2] h1 h2 show ?thesis by simp
qed

text \<open>
  C8: a call of \<^verbatim>\<open>add_edge\<close> whose colour is not Grey leaves the depth map and the depth
  buckets as they were, so every \<^verbatim>\<open>vertex_depth\<close>, every \<^verbatim>\<open>get_vertices_with_depth\<close> and
  \<^verbatim>\<open>depth()\<close> answer as before; after \<^verbatim>\<open>add_vertex(); add_edge(0, 0)\<close> the edge is Green
  and vertex 0 still has depth 1.
\<close>

theorem non_grey_add_edge_keeps_depths:
  "(get_edge_color g from_id to_id = Inr c \<and> c \<noteq> Grey \<and> add_edge g from_id to_id = Inr (i, g') \<longrightarrow>
      vertex_depths g' = vertex_depths g \<and> depth_to_vertices g' = depth_to_vertices g \<and>
      (\<forall>v. vertex_depth g' v = vertex_depth g v) \<and>
      (\<forall>d. get_vertices_with_depth g' d = get_vertices_with_depth g d) \<and>
      depth g' = depth g) \<and>
   get_edge_color (build [AddVertex]) 0 0 = Inr Green \<and>
   vertex_depth (build [AddVertex, AddEdge 0 0]) 0 = Inr 1"
proof (intro conjI impI)
  assume a: "get_edge_color g from_id to_id = Inr c \<and> c \<noteq> Grey \<and> add_edge g from_id to_id = Inr (i, g')"
  then have ae: "add_edge g from_id to_id = Inr (i, g')" and col: "get_edge_color g from_id to_id = Inr c"
    and ng: "c \<noteq> Grey" by simp_all
  from add_edge_Inr [OF ae] col ng
  have eq: "vertex_depths g' = vertex_depths g \<and> depth_to_vertices g' = depth_to_vertices g" by auto
  then show "vertex_depths g' = vertex_depths g" and "depth_to_vertices g' = depth_to_vertices g"
    by simp_all
  from eq show "\<forall>v. vertex_depth g' v = vertex_depth g v" by (simp add: vertex_depth_def)
  from eq show "\<forall>d. get_vertices_with_depth g' d = get_vertices_with_depth g d"
    by (simp add: get_vertices_with_depth_def)
  from eq show "depth g' = depth g" by (simp add: depth_def)
next
  show "get_edge_color (build [AddVertex]) 0 0 = Inr Green" by (simp add: eval_defs)
  show "vertex_depth (build [AddVertex, AddEdge 0 0]) 0 = Inr 1" by (simp add: eval_defs)
qed

theorem non_grey_add_edge_keeps_depths_witness:
  "(\<exists>g'. add_edge (build [AddVertex]) 0 0 = Inr (0, g') \<and>
         vertex_depths g' = vertex_depths (build [AddVertex]) \<and>
         depth_to_vertices g' = depth_to_vertices (build [AddVertex])) \<and>
   get_edge_color (build [AddVertex]) 0 0 = Inr Green \<and> Green \<noteq> Grey"
proof -
  have h1: "get_edge_color (build [AddVertex]) 0 0 = Inr Green" by (simp add: eval_defs)
  obtain g' where h2: "add_edge (build [AddVertex]) 0 0 = Inr (0, g')" by (simp add: eval_defs)
  have h3: "Green \<noteq> Grey" by simp
  from non_grey_add_edge_keeps_depths [of "build [AddVertex]" 0 0 Green 0 g'] h1 h2 h3
  have "vertex_depths g' = vertex_depths (build [AddVertex]) \<and>
        depth_to_vertices g' = depth_to_vertices (build [AddVertex])" by blast
  with h1 h2 h3 show ?thesis by blast
qed

subsection \<open>Colours\<close>



text \<open>
  C4 says that a stored Yellow edge joined two vertices that no edge connected before.
  \<^verbatim>\<open>is_connected\<close> only looks through the adjacency list of \<^verbatim>\<open>from\<close>, and \<^verbatim>\<open>add_edge\<close>
  leaves an edge out of that list when its id equals \<^verbatim>\<open>from\<close> (the guard of C1). After
  \<^verbatim>\<open>add_vertex(); add_vertex(); add_edge(0, 1)\<close> the Grey edge 0 joins 0 and 1, yet
  \<^verbatim>\<open>is_connected(0, 1)\<close> is false, and a second \<^verbatim>\<open>add_edge(0, 1)\<close> is stored Yellow.
\<close>

theorem yellow_edge_between_connected_vertices:
  "is_connected (build [AddVertex, AddVertex, AddEdge 0 1]) 0 1 = Inr False \<and>
   get_edges (build [AddVertex, AddVertex, AddEdge 0 1]) =
     [\<lparr>edge_id = 0, from_vertex_id = 0, to_vertex_id = 1, color = Grey\<rparr>] \<and>
   get_edges (build [AddVertex, AddVertex, AddEdge 0 1, AddEdge 0 1]) =
     [\<lparr>edge_id = 0, from_vertex_id = 0, to_vertex_id = 1, color = Grey\<rparr>,
      \<lparr>edge_id = 1, from_vertex_id = 0, to_vertex_id = 1, color = Yellow\<rparr>]"
  by (simp add: eval_defs)

subsection \<open>Failures\<close>

text \<open>
  C7: \<^verbatim>\<open>add_edge(from, to)\<close> with an endpoint that is not a vertex stops at its assertion
  and the graph stays as it was. In a built graph \<^verbatim>\<open>get_edge_color\<close>, the first statement
  after the assertions, throws \<^verbatim>\<open>std::out_of_range\<close> for such a pair as well.
\<close>

theorem add_edge_rejects_missing_vertex:
  "(\<not> has_vertex g from_id \<or> \<not> has_vertex g to_id \<longrightarrow>
      add_edge g from_id to_id = Inl AssertionFailed \<and>
      apply_call g (AddEdge from_id to_id) = g) \<and>
   (\<not> has_vertex (build cs) from_id \<or> \<not> has_vertex (build cs) to_id \<longrightarrow>
      get_edge_color (build cs) from_id to_id = Inl OutOfRange)"
proof (intro conjI impI)
  assume a: "\<not> has_vertex g from_id \<or> \<not> has_vertex g to_id"
  then show e: "add_edge g from_id to_id = Inl AssertionFailed"
    by (auto simp: add_edge_def)
  then show "apply_call g (AddEdge from_id to_id) = g" by simp
next
  assume "\<not> has_vertex (build cs) from_id \<or> \<not> has_vertex (build cs) to_id"
  then show "get_edge_color (build cs) from_id to_id = Inl OutOfRange"
    by (rule get_edge_color_missing [OF graph_inv_build])
qed

theorem add_edge_rejects_missing_vertex_witness:
  "\<not> has_vertex (build [AddVertex]) 5 \<and>
   add_edge (build [AddVertex]) 0 5 = Inl AssertionFailed \<and>
   apply_call (build [AddVertex]) (AddEdge 0 5) = build [AddVertex] \<and>
   get_edge_color (build [AddVertex]) 0 5 = Inl OutOfRange"
proof -
  have h: "\<not> has_vertex (build [AddVertex]) 5" by (simp add: eval_defs)
  from add_edge_rejects_missing_vertex [of "build [AddVertex]" 0 5 "[AddVertex]"] h
  show ?thesis by simp
qed

text \<open>
  C5 says that every read accessor answers for every argument. \<^verbatim>\<open>vertex_depth\<close> is
  \<^verbatim>\<open>vertex_depths_.at(vertex_id)\<close> with no test before it, and throws for an id that
  is not a vertex.
\<close>

theorem vertex_depth_unknown_id_fails:
  "vertex_depth (build [AddVertex]) 7 = Inl OutOfRange \<and>
   \<not> (\<forall>g v. \<exists>d. vertex_depth g v = Inr d)"
proof
  show a: "vertex_depth (build [AddVertex]) 7 = Inl OutOfRange" by (simp add: eval_defs)
  show "\<not> (\<forall>g v. \<exists>d. vertex_depth g v = Inr d)"
  proof
    assume "\<forall>g v. \<exists>d. vertex_depth g v = Inr d"
    then obtain d where "vertex_depth (build [AddVertex]) 7 = Inr d" by blast
    with a show False by simp
  qed
qed

text \<open>
  C5, as the source has it: \<^verbatim>\<open>get_vertices_with_depth\<close> and \<^verbatim>\<open>connected_edges_ids\<close>
  answer for every argument, with the empty sequence for a key that is not there;
  \<^verbatim>\<open>vertex_depth\<close> answers for the vertices of a built graph and throws
  \<^verbatim>\<open>std::out_of_range\<close> for every other id. \<^verbatim>\<open>depth()\<close>, \<^verbatim>\<open>get_vertices()\<close> and
  \<^verbatim>\<open>get_edges()\<close> read a member and have no failing path: they are the total functions
  \<^const>\<open>depth\<close>, \<^const>\<open>get_vertices\<close> and \<^const>\<open>get_edges\<close>.
\<close>

theorem read_accessors_total_on_known_ids:
  "(\<exists>vs. get_vertices_with_depth g d = Inr vs) \<and>
   (Mapping.lookup (depth_to_vertices g) d = None \<longrightarrow> get_vertices_with_depth g d = Inr []) \<and>
   (\<exists>es. connected_edges_ids g v = Inr es) \<and>
   (\<not> has_vertex g v \<longrightarrow> connected_edges_ids g v = Inr []) \<and>
   (has_vertex (build cs) v \<longrightarrow> (\<exists>x. vertex_depth (build cs) v = Inr x)) \<and>
   (\<not> has_vertex (build cs) v \<longrightarrow> vertex_depth (build cs) v = Inl OutOfRange)"
proof (intro conjI impI)
  show "\<exists>vs. get_vertices_with_depth g d = Inr vs"
    by (cases "Mapping.lookup (depth_to_vertices g) d") (simp_all add: get_vertices_with_depth_def map_at_def)
  show "\<exists>es. connected_edges_ids g v = Inr es"
    by (cases "Mapping.lookup (adjacency_list g) v") (simp_all add: connected_edges_ids_def has_vertex_def map_at_def)
next
  assume "Mapping.lookup (depth_to_vertices g) d = None"
  then show "get_vertices_with_depth g d = Inr []" by (simp add: get_vertices_with_depth_def)
next
  assume "\<not> has_vertex g v"
  then show "connected_edges_ids g v = Inr []" by (simp add: connected_edges_ids_def)
next
  assume "has_vertex (build cs) v"
  then have "Mapping.lookup (vertex_depths (build cs)) v \<noteq> None"
    using graph_inv_same_keys [OF graph_inv_build, of cs v] by (simp add: has_vertex_def)
  then show "\<exists>x. vertex_depth (build cs) v = Inr x"
    by (auto simp: vertex_depth_def map_at_def)
next
  assume "\<not> has_vertex (build cs) v"
  then have "Mapping.lookup (vertex_depths (build cs)) v = None"
    using graph_inv_same_keys [OF graph_inv_build, of cs v] by (simp add: has_vertex_def)
  then show "vertex_depth (build cs) v = Inl OutOfRange"
    by (simp add: vertex_depth_def map_at_def)
qed

theorem read_accessors_total_on_known_ids_witness:
  "Mapping.lookup (depth_to_vertices (build [AddVertex])) 3 = None \<and>
   get_vertices_with_depth (build [AddVertex]) 3 = Inr [] \<and>
   \<not> has_vertex (build [AddVertex]) 3 \<and>
   connected_edges_ids (build [AddVertex]) 3 = Inr [] \<and>
   vertex_depth (build [AddVertex]) 3 = Inl OutOfRange \<and>
   has_vertex (build [AddVertex]) 0 \<and>
   (\<exists>x. vertex_depth (build [AddVertex]) 0 = Inr x)"
proof -
  have h1: "Mapping.lookup (depth_to_vertices (build [AddVertex])) 3 = None" by (simp add: eval_defs)
  have h2: "\<not> has_vertex (build [AddVertex]) 3" by (simp add: eval_defs)
  have h3: "has_vertex (build [AddVertex]) 0" by (simp add: eval_defs)
  from read_accessors_total_on_known_ids [of "build [AddVertex]" 3 3 "[AddVertex]"] h1 h2
  have a: "get_vertices_with_depth (build [AddVertex]) 3 = Inr [] \<and>
        connected_edges_ids (build [AddVertex]) 3 = Inr [] \<and>
        vertex_depth (build [AddVertex]) 3 = Inl OutOfRange" by blast
  from read_accessors_total_on_known_ids [of "build [AddVertex]" 3 0 "[AddVertex]"] h3
  have b: "\<exists>x. vertex_depth (build [AddVertex]) 0 = Inr x" by blast
  from a b h1 h2 h3 show ?thesis by blast
qed

subsection \<open>The generator\<close>

text \<open>
  C9: with \<^verbatim>\<open>target_depth == 0\<close>, \<^verbatim>\<open>generate\<close> returns the graph of \<^verbatim>\<open>Graph()\<close> and takes
  no random draw, whatever \<^verbatim>\<open>new_vertices_count\<close> is: no vertex, no edge, \<^verbatim>\<open>depth()\<close> 0.
\<close>

theorem generate_depth_zero_is_empty:
  assumes "params_depth params = 0"
  shows "generate params rs = Inr (new_Graph, rs) \<and>
         get_vertices new_Graph = [] \<and> get_edges new_Graph = [] \<and> depth new_Graph = 0"
  using assms by (simp add: generate_def get_vertices_def get_edges_def depth_def new_Graph_def)

theorem generate_depth_zero_is_empty_witness:
  "params_depth \<lparr>params_depth = 0, new_vertices_count = 7\<rparr> = 0 \<and>
   generate \<lparr>params_depth = 0, new_vertices_count = 7\<rparr>
       \<lparr>bernoulli_draws = (\<lambda>n. 0), uniform_draws = (\<lambda>n. 0), draws_taken = 0\<rparr> =
     Inr (new_Graph, \<lparr>bernoulli_draws = (\<lambda>n. 0), uniform_draws = (\<lambda>n. 0), draws_taken = 0\<rparr>) \<and>
   get_vertices new_Graph = [] \<and> get_edges new_Graph = [] \<and> depth new_Graph = 0"
proof -
  have h: "params_depth \<lparr>params_depth = 0, new_vertices_count = 7\<rparr> = 0" by simp
  from generate_depth_zero_is_empty [OF h, of "\<lparr>bernoulli_draws = (\<lambda>n. 0), uniform_draws = (\<lambda>n. 0), draws_taken = 0\<rparr>"] h
  show ?thesis by simp
qed

text \<open>
  The probability of a grey trial follows the formula whenever the target depth is
  neither 0 nor 1.
\<close>

lemma probaility_generate_grey_edge_formula:
  assumes "graph_depth \<noteq> 0" and "graph_depth \<noteq> 1"
  shows "probaility_generate_grey_edge current_depth graph_depth =
           Finite (1 - of_int (current_depth - 1) / of_int (graph_depth - 1))"
  using assms by (simp add: probaility_generate_grey_edge_def double_div_def kBaseDepth_def)


text \<open>
  C6 says that the probability of a grey trial is \<open>1 - (current_depth - 1) / (target_depth - 1)\<close>
  and is 1.0 when the target depth is 1. The source returns 1.0 for \<^verbatim>\<open>graph_depth == 0\<close>,
  a depth at which \<^verbatim>\<open>generate\<close> never runs the phase, and divides by
  \<^verbatim>\<open>graph_depth - kBaseDepth\<close> otherwise: at target depth 1 the only layer is
  \<^verbatim>\<open>current_depth == 1\<close>, the quotient is \<open>0.0 / 0\<close>, and the probability handed to
  \<^verbatim>\<open>std::bernoulli_distribution\<close> is NaN.
\<close>

theorem grey_probability_nan_at_depth_one:
  "probaility_generate_grey_edge 1 1 = NaN \<and>
   generate \<lparr>params_depth = 1, new_vertices_count = 1\<rparr> rs = Inl UndefinedBehaviour"
proof
  show p: "probaility_generate_grey_edge 1 1 = NaN"
    by (simp add: probaility_generate_grey_edge_def double_div_def kBaseDepth_def)
  have t: "try_generate_grey_edge \<lparr>params_depth = 1, new_vertices_count = 1\<rparr> g 1 v rs = Inl UndefinedBehaviour"
    for g v
    by (simp add: try_generate_grey_edge_def p check_probability_def)
  have d: "depth (snd (add_vertex new_Graph)) = 1"
    by (simp add: depth_def add_vertex_def get_new_vertex_id_def new_Graph_def emplace_back_at_def
        Mapping.size_update)
  have vs: "get_vertices_with_depth (snd (add_vertex new_Graph)) 1 = Inr [0]"
    by (simp add: eval_defs)
  have "generate_grey_edges \<lparr>params_depth = 1, new_vertices_count = 1\<rparr> (snd (add_vertex new_Graph)) rs =
      Inl UndefinedBehaviour"
    unfolding generate_grey_edges_def kBaseDepth_def
    by (subst generate_grey_edges_from.simps) (simp add: d vs t)
  then show "generate \<lparr>params_depth = 1, new_vertices_count = 1\<rparr> rs = Inl UndefinedBehaviour"
    by (cases "add_vertex new_Graph") (simp add: generate_def)
qed

end
